theory Spec2Isabelle
  imports Main "HOL-Library.Word"
begin

section \<open>The token contract (contracts/AtaToken.sol)\<close>

text \<open>
  Solidity's value types: an \<open>address\<close> is 160 bits wide, \<open>uint256\<close> and \<open>uint8\<close> are
  unsigned machine integers. A failing \<open>require\<close> reverts with its reason string; under
  \<open>pragma solidity ^0.8.4\<close> an arithmetic overflow outside an \<open>unchecked\<close> block reverts
  with \<open>Panic(0x11)\<close>.
\<close>

type_synonym address = "160 word"
type_synonym uint256 = "256 word"
type_synonym uint8 = "8 word"

datatype error = Revert string | Panic nat

definition require :: "bool \<Rightarrow> string \<Rightarrow> error + unit" where
  "require c reason = (if c then Inr () else Inl (Revert reason))"

definition checked_add :: "uint256 \<Rightarrow> uint256 \<Rightarrow> error + uint256" where
  "checked_add a b = (if unat a + unat b < 2 ^ 256 then Inr (a + b) else Inl (Panic 17))"

definition checked_mul :: "uint256 \<Rightarrow> uint256 \<Rightarrow> error + uint256" where
  "checked_mul a b = (if unat a * unat b < 2 ^ 256 then Inr (a * b) else Inl (Panic 17))"

definition checked_pow :: "uint256 \<Rightarrow> uint8 \<Rightarrow> error + uint256" where
  "checked_pow a n = (if unat a ^ unat n < 2 ^ 256 then Inr (a ^ unat n) else Inl (Panic 17))"

text \<open>
  The storage of the deployed contract: the state variables of the inherited ERC20 base
  contract (\<open>_balances\<close>, \<open>_allowances\<close>, \<open>_totalSupply\<close>, \<open>_name\<close>, \<open>_symbol\<close>)
  followed by the two that AtaToken declares (lines 7 and 8). A Solidity mapping is total:
  a key never written reads as zero.
\<close>

record AtaToken =
  name :: string
  symbol :: string
  balances :: "address \<Rightarrow> uint256"
  allowances :: "address \<Rightarrow> address \<Rightarrow> uint256"
  totalSupply :: uint256
  claimants :: "address \<Rightarrow> uint8"
  rewardAmount :: uint256

definition CLAIM_STATUS_PENDING :: uint8 where
  "CLAIM_STATUS_PENDING = 0"

definition CLAIM_STATUS_CLAIMED :: uint8 where
  "CLAIM_STATUS_CLAIMED = 1"

subsection \<open>The inherited ERC20 base contract\<close>

text \<open>
  Modelled from the spec: AtaToken imports
  \<open>@openzeppelin/contracts/token/ERC20/ERC20.sol\<close> (line 4), a dependency whose file is
  not among the repository's own. The spec's glossary describes it as the token standard with balance,
  transfer and approve semantics, and \<open>claim\<close> as minting to an account. The
  definitions of this subsection are the functions AtaToken inherits, as the 4.x release
  line of that library has them, the one current for \<open>pragma solidity ^0.8.4\<close>:
  \<open>_mint\<close>, \<open>_transfer\<close> and \<open>_approve\<close> refuse the zero address, the total supply is
  increased with a checked addition, and the balance updates sit in \<open>unchecked\<close>
  blocks, so they wrap.
\<close>

text \<open>
  Modelled from the spec: \<open>decimals()\<close> of the base contract, which AtaToken does not
  override. The README's \<open>wallet_watchAsset\<close> request passes the same 18.
\<close>

definition decimals :: uint8 where
  "decimals = 18"

text \<open>
  Modelled from the spec: the base constructor \<open>ERC20(name_, symbol_)\<close>, called at
  line 13, stores the two strings.
\<close>

definition ERC20 :: "string \<Rightarrow> string \<Rightarrow> AtaToken \<Rightarrow> AtaToken" where
  "ERC20 name' symbol' s = s\<lparr>name := name', symbol := symbol'\<rparr>"

text \<open>
  Modelled from the spec: \<open>_mint(account, amount)\<close> of the base contract, the mint
  that \<open>claim\<close> and the constructor call.
\<close>

definition mint :: "address \<Rightarrow> uint256 \<Rightarrow> AtaToken \<Rightarrow> error + AtaToken" where
  "mint account amount s =
     (case require (account \<noteq> 0) ''ERC20: mint to the zero address'' of
        Inl e \<Rightarrow> Inl e
      | Inr _ \<Rightarrow>
        (case checked_add (totalSupply s) amount of
           Inl e \<Rightarrow> Inl e
         | Inr t \<Rightarrow>
           Inr (s\<lparr>balances := (balances s)(account := balances s account + amount),
                  totalSupply := t\<rparr>)))"

text \<open>
  Modelled from the spec: \<open>_transfer\<close>, \<open>_approve\<close> and \<open>_spendAllowance\<close> of the base
  contract, and the external functions built on them. None of them is called by
  AtaToken's own code; they are part of what a transaction can do to the storage.
\<close>

definition transfer_internal ::
  "address \<Rightarrow> address \<Rightarrow> uint256 \<Rightarrow> AtaToken \<Rightarrow> error + AtaToken" where
  "transfer_internal from to amount s =
     (case require (from \<noteq> 0) ''ERC20: transfer from the zero address'' of
        Inl e \<Rightarrow> Inl e
      | Inr _ \<Rightarrow>
        (case require (to \<noteq> 0) ''ERC20: transfer to the zero address'' of
           Inl e \<Rightarrow> Inl e
         | Inr _ \<Rightarrow>
           (let fromBalance = balances s from in
            case require (unat amount \<le> unat fromBalance)
                   ''ERC20: transfer amount exceeds balance'' of
              Inl e \<Rightarrow> Inl e
            | Inr _ \<Rightarrow>
              (let b1 = (balances s)(from := fromBalance - amount);
                   b2 = b1(to := b1 to + amount)
               in Inr (s\<lparr>balances := b2\<rparr>)))))"

definition approve_internal ::
  "address \<Rightarrow> address \<Rightarrow> uint256 \<Rightarrow> AtaToken \<Rightarrow> error + AtaToken" where
  "approve_internal owner spender amount s =
     (case require (owner \<noteq> 0) ''ERC20: approve from the zero address'' of
        Inl e \<Rightarrow> Inl e
      | Inr _ \<Rightarrow>
        (case require (spender \<noteq> 0) ''ERC20: approve to the zero address'' of
           Inl e \<Rightarrow> Inl e
         | Inr _ \<Rightarrow>
           Inr (s\<lparr>allowances := (allowances s)(owner := (allowances s owner)(spender := amount))\<rparr>)))"

definition spendAllowance ::
  "address \<Rightarrow> address \<Rightarrow> uint256 \<Rightarrow> AtaToken \<Rightarrow> error + AtaToken" where
  "spendAllowance owner spender amount s =
     (let currentAllowance = allowances s owner spender in
      if currentAllowance \<noteq> - 1 then
        (case require (unat amount \<le> unat currentAllowance) ''ERC20: insufficient allowance'' of
           Inl e \<Rightarrow> Inl e
         | Inr _ \<Rightarrow> approve_internal owner spender (currentAllowance - amount) s)
      else Inr s)"

definition transfer :: "address \<Rightarrow> address \<Rightarrow> uint256 \<Rightarrow> AtaToken \<Rightarrow> error + AtaToken" where
  "transfer sender to amount s = transfer_internal sender to amount s"

definition approve :: "address \<Rightarrow> address \<Rightarrow> uint256 \<Rightarrow> AtaToken \<Rightarrow> error + AtaToken" where
  "approve sender spender amount s = approve_internal sender spender amount s"

definition transferFrom ::
  "address \<Rightarrow> address \<Rightarrow> address \<Rightarrow> uint256 \<Rightarrow> AtaToken \<Rightarrow> error + AtaToken" where
  "transferFrom sender from to amount s =
     (case spendAllowance from sender amount s of
        Inl e \<Rightarrow> Inl e
      | Inr s1 \<Rightarrow> transfer_internal from to amount s1)"

definition increaseAllowance ::
  "address \<Rightarrow> address \<Rightarrow> uint256 \<Rightarrow> AtaToken \<Rightarrow> error + AtaToken" where
  "increaseAllowance sender spender addedValue s =
     (case checked_add (allowances s sender spender) addedValue of
        Inl e \<Rightarrow> Inl e
      | Inr a \<Rightarrow> approve_internal sender spender a s)"

definition decreaseAllowance ::
  "address \<Rightarrow> address \<Rightarrow> uint256 \<Rightarrow> AtaToken \<Rightarrow> error + AtaToken" where
  "decreaseAllowance sender spender subtractedValue s =
     (let currentAllowance = allowances s sender spender in
      case require (unat subtractedValue \<le> unat currentAllowance)
             ''ERC20: decreased allowance below zero'' of
        Inl e \<Rightarrow> Inl e
      | Inr _ \<Rightarrow> approve_internal sender spender (currentAllowance - subtractedValue) s)"

definition balanceOf :: "AtaToken \<Rightarrow> address \<Rightarrow> uint256" where
  "balanceOf s account = balances s account"

definition allowance :: "AtaToken \<Rightarrow> address \<Rightarrow> address \<Rightarrow> uint256" where
  "allowance s owner spender = allowances s owner spender"

subsection \<open>AtaToken itself\<close>

text \<open>
  \<open>hasClaimed\<close> (lines 24 to 26) is a \<open>view\<close> function: it reads the storage and
  returns a boolean.
\<close>

definition hasClaimed :: "AtaToken \<Rightarrow> address \<Rightarrow> bool" where
  "hasClaimed s account = (claimants s account = CLAIM_STATUS_CLAIMED)"

text \<open>
  \<open>claim\<close> (lines 18 to 22) takes no argument: the account is \<open>msg.sender\<close>. The three
  statements run in the source's order; a failure of any of them reverts the call.
\<close>

definition claim :: "address \<Rightarrow> AtaToken \<Rightarrow> error + AtaToken" where
  "claim sender s =
     (case require (\<not> hasClaimed s sender) ''Already claimed'' of
        Inl e \<Rightarrow> Inl e
      | Inr _ \<Rightarrow>
        (case mint sender (rewardAmount s) s of
           Inl e \<Rightarrow> Inl e
         | Inr s1 \<Rightarrow>
           Inr (s1\<lparr>claimants := (claimants s1)(sender := CLAIM_STATUS_CLAIMED)\<rparr>)))"

text \<open>
  The constructor (lines 13 to 16) runs on fresh storage, where every slot is zero. The
  base constructor runs first; the argument of \<open>_mint\<close> is evaluated before the call.
  The literal base of \<open>10**decimals()\<close> is computed in \<open>uint256\<close>.
\<close>

definition fresh :: AtaToken where
  "fresh = \<lparr>name = [], symbol = [], balances = (\<lambda>_. 0), allowances = (\<lambda>_ _. 0),
            totalSupply = 0, claimants = (\<lambda>_. 0), rewardAmount = 0\<rparr>"

definition constructor :: "address \<Rightarrow> error + AtaToken" where
  "constructor sender =
     (case checked_pow 10 decimals of
        Inl e \<Rightarrow> Inl e
      | Inr p \<Rightarrow>
        (case checked_mul 1000000 p of
           Inl e \<Rightarrow> Inl e
         | Inr supply \<Rightarrow>
           (case mint sender supply (ERC20 ''AtaToken'' ''ATA'' fresh) of
              Inl e \<Rightarrow> Inl e
            | Inr s1 \<Rightarrow>
              (case checked_pow 10 decimals of
                 Inl e \<Rightarrow> Inl e
               | Inr q \<Rightarrow>
                 (case checked_mul 1000 q of
                    Inl e \<Rightarrow> Inl e
                  | Inr r \<Rightarrow> Inr (s1\<lparr>rewardAmount := r\<rparr>))))))"

subsection \<open>Transactions\<close>

text \<open>
  The external functions of the deployed contract. A transaction names its sender and one
  call; a call that reverts leaves the storage as it was.
\<close>

datatype call =
    Claim
  | HasClaimed address
  | BalanceOf address
  | Allowance address address
  | TotalSupply
  | RewardAmount
  | Name
  | Symbol
  | Decimals
  | Transfer address uint256
  | Approve address uint256
  | TransferFrom address address uint256
  | IncreaseAllowance address uint256
  | DecreaseAllowance address uint256

datatype retval = RUnit | RBool bool | RUint uint256 | RUint8 uint8 | RString string

definition returning :: "retval \<Rightarrow> error + AtaToken \<Rightarrow> error + AtaToken \<times> retval" where
  "returning r x = (case x of Inl e \<Rightarrow> Inl e | Inr s \<Rightarrow> Inr (s, r))"

fun execute :: "address \<Rightarrow> call \<Rightarrow> AtaToken \<Rightarrow> error + AtaToken \<times> retval" where
  "execute sender Claim s = returning RUnit (claim sender s)"
| "execute sender (HasClaimed a) s = Inr (s, RBool (hasClaimed s a))"
| "execute sender (BalanceOf a) s = Inr (s, RUint (balanceOf s a))"
| "execute sender (Allowance a b) s = Inr (s, RUint (allowance s a b))"
| "execute sender TotalSupply s = Inr (s, RUint (totalSupply s))"
| "execute sender RewardAmount s = Inr (s, RUint (rewardAmount s))"
| "execute sender Name s = Inr (s, RString (name s))"
| "execute sender Symbol s = Inr (s, RString (symbol s))"
| "execute sender Decimals s = Inr (s, RUint8 decimals)"
| "execute sender (Transfer to v) s = returning (RBool True) (transfer sender to v s)"
| "execute sender (Approve sp v) s = returning (RBool True) (approve sender sp v s)"
| "execute sender (TransferFrom a b v) s = returning (RBool True) (transferFrom sender a b v s)"
| "execute sender (IncreaseAllowance sp v) s =
     returning (RBool True) (increaseAllowance sender sp v s)"
| "execute sender (DecreaseAllowance sp v) s =
     returning (RBool True) (decreaseAllowance sender sp v s)"

definition transact :: "address \<times> call \<Rightarrow> AtaToken \<Rightarrow> AtaToken" where
  "transact tx s = (case execute (fst tx) (snd tx) s of Inl e \<Rightarrow> s | Inr (s', r) \<Rightarrow> s')"

fun run :: "(address \<times> call) list \<Rightarrow> AtaToken \<Rightarrow> AtaToken" where
  "run [] s = s"
| "run (tx # txs) s = run txs (transact tx s)"

inductive reachable :: "AtaToken \<Rightarrow> bool" where
  deployed: "constructor deployer = Inr s \<Longrightarrow> reachable s"
| step: "reachable s \<Longrightarrow> execute sender c s = Inr (s', r) \<Longrightarrow> reachable s'"

subsection \<open>Traces of transactions\<close>

text \<open>
  Whether a transaction goes through, how often an account's status passes from one value
  to another along a run, and whether an account has had a \<open>claim\<close> go through.
\<close>

definition succeeds :: "address \<times> call \<Rightarrow> AtaToken \<Rightarrow> bool" where
  "succeeds tx s = (case execute (fst tx) (snd tx) s of Inl e \<Rightarrow> False | Inr _ \<Rightarrow> True)"

fun transitions ::
  "address \<Rightarrow> uint8 \<Rightarrow> uint8 \<Rightarrow> (address \<times> call) list \<Rightarrow> AtaToken \<Rightarrow> nat" where
  "transitions a x y [] s = 0"
| "transitions a x y (tx # txs) s =
     (if claimants s a = x \<and> claimants (transact tx s) a = y then 1 else 0)
       + transitions a x y txs (transact tx s)"

fun claimed_by :: "address \<Rightarrow> (address \<times> call) list \<Rightarrow> AtaToken \<Rightarrow> bool" where
  "claimed_by a [] s = False"
| "claimed_by a (tx # txs) s =
     ((tx = (a, Claim) \<and> succeeds tx s) \<or> claimed_by a txs (transact tx s))"

text \<open>The quantities the invariant of the reachable states speaks about.\<close>

definition claimed_set :: "AtaToken \<Rightarrow> address set" where
  "claimed_set s = {a. hasClaimed s a}"

definition sum_balances :: "AtaToken \<Rightarrow> nat" where
  "sum_balances s = (\<Sum>a\<in>UNIV. unat (balances s a))"

definition invariant :: "AtaToken \<Rightarrow> bool" where
  "invariant s \<longleftrightarrow>
     rewardAmount s = 1000 * 10 ^ 18 \<and>
     unat (totalSupply s) = 10 ^ 24 + 10 ^ 21 * card (claimed_set s) \<and>
     sum_balances s = unat (totalSupply s) \<and>
     (\<forall>a. claimants s a = CLAIM_STATUS_PENDING \<or> claimants s a = CLAIM_STATUS_CLAIMED)"

text \<open>
  Two concrete states: the storage after deployment by account 1, and the storage after
  account 2 has claimed there.
\<close>

definition genesis :: AtaToken where
  "genesis = \<lparr>name = ''AtaToken'', symbol = ''ATA'',
      balances = (\<lambda>_. 0)(1 := 1000000000000000000000000),
      allowances = (\<lambda>_ _. 0), totalSupply = 1000000000000000000000000,
      claimants = (\<lambda>_. 0), rewardAmount = 1000000000000000000000\<rparr>"

definition claimed2 :: AtaToken where
  "claimed2 = \<lparr>name = ''AtaToken'', symbol = ''ATA'',
      balances = (\<lambda>_. 0)(1 := 1000000000000000000000000, 2 := 1000000000000000000000),
      allowances = (\<lambda>_ _. 0), totalSupply = 1001000000000000000000000,
      claimants = (\<lambda>_. 0)(2 := 1), rewardAmount = 1000000000000000000000\<rparr>"

section \<open>The client (src/web3.js and the README walkthrough)\<close>

text \<open>
  The JavaScript side talks to the chain through the ethers library and the injected
  wallet. Both are outside the repository, so what they answer is an input of the model:
  a record of replies, each either an error (a rejected promise, a thrown exception) or a
  value. The error type \<open>'e\<close> is whatever the library or the wallet rejects with. An
  ethers \<open>BigNumber\<close> is an unbounded integer; an account is an address string.
\<close>

type_synonym BigNumber = int

record 'e utils =
  formatEther :: "BigNumber \<Rightarrow> string"
  parseEther :: "string \<Rightarrow> 'e + BigNumber"

datatype request =
    BalanceOfCall string
  | HasClaimedCall string
  | AllowanceCall string string

datatype tx = ApproveTx string BigNumber | StakeTx BigNumber

text \<open>
  What an async function does, in the order it does it: \<open>Query\<close> when a read call is
  made (the promise is created), \<open>Reply\<close> when the function resumes with the awaited
  value, \<open>Submitted\<close> when the wallet has sent a transaction (\<open>await contract.f(...)\<close>
  resolved), \<open>Confirmed\<close> when \<open>await tx.wait()\<close> resolved.
\<close>

datatype event = Query request | Reply request | Submitted tx | Confirmed tx

subsection \<open>getWeb3Provider (src/web3.js, lines 5 to 12)\<close>

text \<open>
  \<open>window.ethereum\<close> is any JavaScript value; \<open>if (window.ethereum)\<close> tests its
  truthiness. Numbers are kept to the integers. The \<open>Web3Provider\<close> constructor belongs
  to ethers and is a parameter; it may throw. \<open>None\<close> is JavaScript's \<open>null\<close>.
\<close>

datatype 'o js_value =
    Undefined
  | Null
  | Boolean bool
  | Number int
  | String string
  | Object 'o

fun truthy :: "'o js_value \<Rightarrow> bool" where
  "truthy Undefined = False"
| "truthy Null = False"
| "truthy (Boolean b) = b"
| "truthy (Number n) = (n \<noteq> 0)"
| "truthy (String s) = (s \<noteq> [])"
| "truthy (Object _) = True"

record 'o window =
  ethereum :: "'o js_value"

definition getWeb3Provider ::
  "('o js_value \<Rightarrow> 'e + 'p) \<Rightarrow> 'o window \<Rightarrow> 'e + 'p option" where
  "getWeb3Provider Web3Provider w =
     (if truthy (ethereum w) then
        (case Web3Provider (ethereum w) of Inl e \<Rightarrow> Inl e | Inr p \<Rightarrow> Inr (Some p))
      else Inr None)"

subsection \<open>getBalanceAndClaimed (README, lines 190 to 197)\<close>

text \<open>
  The read-only connection answers the two view calls. \<open>Promise.all\<close> takes the two
  promises after both calls have been made; it rejects with the reason of the promise that
  rejects first, which the connection decides when both do.
\<close>

record 'e provider =
  balanceOf_reply :: "string \<Rightarrow> 'e + BigNumber"
  hasClaimed_reply :: "string \<Rightarrow> 'e + bool"
  balanceOf_rejects_first :: bool

definition promise_all :: "bool \<Rightarrow> 'e + 'a \<Rightarrow> 'e + 'b \<Rightarrow> 'e + 'a \<times> 'b" where
  "promise_all first_wins p q =
     (case p of
        Inl e1 \<Rightarrow> (case q of Inl e2 \<Rightarrow> Inl (if first_wins then e1 else e2) | Inr _ \<Rightarrow> Inl e1)
      | Inr a \<Rightarrow> (case q of Inl e2 \<Rightarrow> Inl e2 | Inr b \<Rightarrow> Inr (a, b)))"

definition getBalanceAndClaimed ::
  "'e utils \<Rightarrow> string \<Rightarrow> 'e provider \<Rightarrow> event list \<times> ('e + string \<times> bool)" where
  "getBalanceAndClaimed u account prov =
     (let p1 = balanceOf_reply prov account;
          p2 = hasClaimed_reply prov account;
          made = [Query (BalanceOfCall account), Query (HasClaimedCall account)]
      in case promise_all (balanceOf_rejects_first prov) p1 p2 of
           Inl e \<Rightarrow> (made, Inl e)
         | Inr (balance, claimed) \<Rightarrow>
             (made @ [Reply (BalanceOfCall account), Reply (HasClaimedCall account)],
              Inr (formatEther u balance, claimed)))"

subsection \<open>handleStake (README, lines 325 to 339)\<close>

text \<open>
  The signer answers each call; \<open>spender\<close> is \<open>STAKING_CONTRACT.address\<close>. The body
  of the function as the README prints it ends in the comment \<open>// ...\<close>: the statements
  that follow the \<open>if\<close> are not shown. They run after it, with \<open>amount\<close> in scope, so
  they are the parameter \<open>rest\<close> of the model: given the amount, what they do and how they
  end. With \<open>nothing_more\<close> in that place the model is the function exactly as printed.
\<close>

record 'e signer =
  allowance_reply :: "string \<Rightarrow> string \<Rightarrow> 'e + BigNumber"
  approve_reply :: "string \<Rightarrow> BigNumber \<Rightarrow> 'e + unit"
  approve_wait :: "string \<Rightarrow> BigNumber \<Rightarrow> 'e + unit"
  stake_reply :: "BigNumber \<Rightarrow> 'e + unit"
  stake_wait :: "BigNumber \<Rightarrow> 'e + unit"

definition approve_step ::
  "'e signer \<Rightarrow> string \<Rightarrow> BigNumber \<Rightarrow> BigNumber \<Rightarrow> event list \<times> ('e + unit)" where
  "approve_step sg spender current_allowance amount =
     (if current_allowance < amount then
        (case approve_reply sg spender amount of
           Inl e \<Rightarrow> ([], Inl e)
         | Inr _ \<Rightarrow>
           (case approve_wait sg spender amount of
              Inl e \<Rightarrow> ([Submitted (ApproveTx spender amount)], Inl e)
            | Inr _ \<Rightarrow>
              ([Submitted (ApproveTx spender amount), Confirmed (ApproveTx spender amount)],
               Inr ())))
      else ([], Inr ()))"

definition handleStake ::
  "'e utils \<Rightarrow> 'e signer \<Rightarrow> string \<Rightarrow> string \<Rightarrow> string \<Rightarrow>
     (BigNumber \<Rightarrow> event list \<times> ('e + unit)) \<Rightarrow> event list \<times> ('e + unit)" where
  "handleStake u sg account spender stake rest =
     (case parseEther u stake of
        Inl e \<Rightarrow> ([], Inl e)
      | Inr amount \<Rightarrow>
        (case allowance_reply sg account spender of
           Inl e \<Rightarrow> ([Query (AllowanceCall account spender)], Inl e)
         | Inr current_allowance \<Rightarrow>
           (let asked = [Query (AllowanceCall account spender),
                         Reply (AllowanceCall account spender)];
                (t1, r1) = approve_step sg spender current_allowance amount
            in case r1 of
                 Inl e \<Rightarrow> (asked @ t1, Inl e)
               | Inr _ \<Rightarrow> (let (t2, r2) = rest amount in (asked @ t1 @ t2, r2)))))"

definition nothing_more :: "BigNumber \<Rightarrow> event list \<times> ('e + unit)" where
  "nothing_more amount = ([], Inr ())"

text \<open>
  Modelled from the spec: the statements behind the \<open>// ...\<close> of \<open>handleStake\<close>, which
  the README does not print. The spec (sections 4.2 and 8) calls them the dependent
  action, the stake: the stake transaction for the requested amount, submitted through
  the signing connection, each network call awaited (section 5). The earlier version of
  the function (README, lines 286 to 295) makes the same call and awaits \<open>tx.wait()\<close>.
\<close>

definition stake_step :: "'e signer \<Rightarrow> BigNumber \<Rightarrow> event list \<times> ('e + unit)" where
  "stake_step sg amount =
     (case stake_reply sg amount of
        Inl e \<Rightarrow> ([], Inl e)
      | Inr _ \<Rightarrow>
        (case stake_wait sg amount of
           Inl e \<Rightarrow> ([Submitted (StakeTx amount)], Inl e)
         | Inr _ \<Rightarrow> ([Submitted (StakeTx amount), Confirmed (StakeTx amount)], Inr ())))"

text \<open>The approval submissions in a trace, and the part of a trace before the stake.\<close>

fun approvals :: "event list \<Rightarrow> tx list" where
  "approvals [] = []"
| "approvals (Submitted (ApproveTx sp v) # es) = ApproveTx sp v # approvals es"
| "approvals (e # es) = approvals es"

fun is_stake_submission :: "event \<Rightarrow> bool" where
  "is_stake_submission (Submitted (StakeTx v)) = True"
| "is_stake_submission e = False"

definition before_stake :: "event list \<Rightarrow> event list" where
  "before_stake es = takeWhile (\<lambda>e. \<not> is_stake_submission e) es"

text \<open>Replies used to run the client on concrete inputs.\<close>

definition demo_utils :: "string utils" where
  "demo_utils = \<lparr>formatEther = (\<lambda>n. if n = 1000000000000000000 then ''1.0'' else ''?''),
      parseEther = (\<lambda>s. if s = ''5.0'' then Inr 5000000000000000000 else Inl ''invalid decimal value'')\<rparr>"

definition demo_provider :: "string provider" where
  "demo_provider = \<lparr>balanceOf_reply = (\<lambda>_. Inr 1000000000000000000),
      hasClaimed_reply = (\<lambda>_. Inr True), balanceOf_rejects_first = True\<rparr>"

definition demo_signer :: "BigNumber \<Rightarrow> string signer" where
  "demo_signer current = \<lparr>allowance_reply = (\<lambda>_ _. Inr current),
      approve_reply = (\<lambda>_ _. Inr ()), approve_wait = (\<lambda>_ _. Inr ()),
      stake_reply = (\<lambda>_. Inr ()), stake_wait = (\<lambda>_. Inr ())\<rparr>"


section \<open>Proofs about the contract\<close>

subsection \<open>Sums over all addresses\<close>

lemma sum_fun_upd_nat:
  fixes f :: "'a::finite \<Rightarrow> nat"
  shows "sum (f(a := v)) UNIV + f a = sum f UNIV + v"
proof -
  have "sum (f(a := v)) UNIV = v + sum (f(a := v)) (UNIV - {a})"
    by (subst sum.remove [of UNIV a]) simp_all
  moreover have "sum (f(a := v)) (UNIV - {a}) = sum f (UNIV - {a})"
    by (rule sum.cong) simp_all
  moreover have "sum f UNIV = f a + sum f (UNIV - {a})"
    by (subst sum.remove [of UNIV a]) simp_all
  ultimately show ?thesis by simp
qed

lemma sum_balances_upd:
  "sum_balances (s\<lparr>balances := (balances s)(a := v)\<rparr>) + unat (balances s a)
     = sum_balances s + unat v"
proof -
  have "sum_balances (s\<lparr>balances := (balances s)(a := v)\<rparr>)
          = sum ((\<lambda>x. unat (balances s x))(a := unat v)) UNIV"
    unfolding sum_balances_def by (rule sum.cong) simp_all
  then show ?thesis
    using sum_fun_upd_nat [of "\<lambda>x. unat (balances s x)" a "unat v"]
    by (simp add: sum_balances_def)
qed

lemma balance_le_sum: "unat (balances s a) \<le> sum_balances s"
  unfolding sum_balances_def by (rule member_le_sum) simp_all

lemma sum_balances_single:
  "sum_balances \<lparr>name = n, symbol = sy, balances = (\<lambda>_. 0)(d := v), allowances = al,
      totalSupply = t, claimants = c, rewardAmount = r\<rparr> = unat v"
proof -
  have "sum ((\<lambda>_. 0 :: nat)(d := unat v)) UNIV + 0 = sum (\<lambda>_::address. 0 :: nat) UNIV + unat v"
    using sum_fun_upd_nat [of "\<lambda>_::address. 0 :: nat" d "unat v"] by simp
  moreover have "(\<Sum>a\<in>UNIV. unat (((\<lambda>_. 0 :: uint256)(d := v)) a))
      = sum ((\<lambda>_. 0 :: nat)(d := unat v)) UNIV"
    by (rule sum.cong) simp_all
  ultimately show ?thesis by (simp add: sum_balances_def)
qed

subsection \<open>What each function does when it returns\<close>

lemma mint_Inr:
  "mint a v s = Inr s' \<longleftrightarrow>
     a \<noteq> 0 \<and> unat (totalSupply s) + unat v < 2 ^ 256 \<and>
     s' = s\<lparr>balances := (balances s)(a := balances s a + v), totalSupply := totalSupply s + v\<rparr>"
  by (auto simp: mint_def require_def checked_add_def)

lemma transfer_internal_Inr:
  "transfer_internal f t v s = Inr s' \<longleftrightarrow>
     f \<noteq> 0 \<and> t \<noteq> 0 \<and> unat v \<le> unat (balances s f) \<and>
     s' = s\<lparr>balances := ((balances s)(f := balances s f - v))
                          (t := ((balances s)(f := balances s f - v)) t + v)\<rparr>"
  by (auto simp: transfer_internal_def require_def Let_def)

lemma approve_internal_Inr:
  "approve_internal ow sp v s = Inr s' \<longleftrightarrow>
     ow \<noteq> 0 \<and> sp \<noteq> 0 \<and>
     s' = s\<lparr>allowances := (allowances s)(ow := (allowances s ow)(sp := v))\<rparr>"
  by (auto simp: approve_internal_def require_def)

lemma claim_Inr:
  "claim a s = Inr s' \<longleftrightarrow>
     \<not> hasClaimed s a \<and>
     (\<exists>s1. mint a (rewardAmount s) s = Inr s1 \<and>
           s' = s1\<lparr>claimants := (claimants s1)(a := CLAIM_STATUS_CLAIMED)\<rparr>)"
  by (auto simp: claim_def require_def split: sum.splits)

lemma constructor_Inr:
  "constructor d = Inr s \<longleftrightarrow>
     d \<noteq> 0 \<and>
     s = \<lparr>name = ''AtaToken'', symbol = ''ATA'',
          balances = (\<lambda>_. 0)(d := 1000000 * 10 ^ 18), allowances = (\<lambda>_ _. 0),
          totalSupply = 1000000 * 10 ^ 18, claimants = (\<lambda>_. 0),
          rewardAmount = 1000 * 10 ^ 18\<rparr>"
  by (auto simp: constructor_def checked_pow_def checked_mul_def decimals_def mint_def
        require_def checked_add_def fresh_def ERC20_def)

lemma claim_claimed:
  "claimants s a = CLAIM_STATUS_CLAIMED \<Longrightarrow> claim a s = Inl (Revert ''Already claimed'')"
  by (simp add: claim_def hasClaimed_def require_def)

text \<open>
  With the zero address as sender a first \<open>claim\<close> stops in \<open>_mint\<close>. No transaction
  has that sender; the statements about a \<open>claim\<close> that goes through take the sender to
  be another address.
\<close>

lemma claim_zero_address:
  "\<not> hasClaimed s 0 \<Longrightarrow> claim 0 s = Inl (Revert ''ERC20: mint to the zero address'')"
  by (simp add: claim_def require_def mint_def)

subsection \<open>The invariant of the reachable states\<close>

lemma mint_sum_balances:
  assumes "mint a v s = Inr s'" and "sum_balances s = unat (totalSupply s)"
  shows "sum_balances s' = unat (totalSupply s') \<and>
         unat (totalSupply s') = unat (totalSupply s) + unat v \<and>
         unat (balances s' a) = unat (balances s a) + unat v"
proof -
  from assms(1) have lt: "unat (totalSupply s) + unat v < 2 ^ 256"
    and s': "s' = s\<lparr>balances := (balances s)(a := balances s a + v),
                     totalSupply := totalSupply s + v\<rparr>"
    by (simp_all add: mint_Inr)
  have ts: "unat (totalSupply s + v) = unat (totalSupply s) + unat v"
    using lt by (simp add: unat_add_lem [THEN iffD1])
  have "unat (balances s a) + unat v < 2 ^ 256"
    using balance_le_sum [of s a] assms(2) lt by simp
  then have ba: "unat (balances s a + v) = unat (balances s a) + unat v"
    by (simp add: unat_add_lem [THEN iffD1])
  have "sum_balances (s\<lparr>balances := (balances s)(a := balances s a + v)\<rparr>)
          = sum_balances s + unat v"
    using sum_balances_upd [of s a "balances s a + v"] ba by simp
  moreover have "sum_balances s'
          = sum_balances (s\<lparr>balances := (balances s)(a := balances s a + v)\<rparr>)"
    by (simp add: s' sum_balances_def)
  ultimately show ?thesis using ts ba assms(2) by (simp add: s')
qed

lemma transfer_internal_sum_balances:
  assumes "transfer_internal f t v s = Inr s'" and "sum_balances s = unat (totalSupply s)"
  shows "sum_balances s' = sum_balances s"
proof -
  define s1 where "s1 = s\<lparr>balances := (balances s)(f := balances s f - v)\<rparr>"
  from assms(1) have le: "unat v \<le> unat (balances s f)"
    and s': "s' = s1\<lparr>balances := (balances s1)(t := balances s1 t + v)\<rparr>"
    by (simp_all add: transfer_internal_Inr s1_def)
  have sub: "unat (balances s f - v) = unat (balances s f) - unat v"
    using le by (simp add: unat_sub word_le_nat_alt)
  have "sum_balances s1 + unat (balances s f) = sum_balances s + unat (balances s f - v)"
    unfolding s1_def by (rule sum_balances_upd)
  then have e1: "sum_balances s1 + unat v = sum_balances s"
    using sub le by simp
  have "unat (balances s1 t) \<le> sum_balances s1" by (rule balance_le_sum)
  then have "unat (balances s1 t) + unat v \<le> unat (totalSupply s)"
    using e1 assms(2) by simp
  moreover have "unat (totalSupply s) < 2 ^ 256"
    using unsigned_less [of "totalSupply s"] by simp
  ultimately have add: "unat (balances s1 t + v) = unat (balances s1 t) + unat v"
    by (simp add: unat_add_lem [THEN iffD1])
  have "sum_balances s' + unat (balances s1 t) = sum_balances s1 + unat (balances s1 t + v)"
    unfolding s' by (rule sum_balances_upd)
  then show ?thesis using add e1 by simp
qed

lemma invariant_allowances:
  "invariant (s\<lparr>allowances := al\<rparr>) = invariant s"
  by (simp add: invariant_def claimed_set_def hasClaimed_def sum_balances_def)

lemma approve_internal_invariant:
  "approve_internal ow sp v s = Inr s' \<Longrightarrow> invariant s \<Longrightarrow> invariant s'"
  by (auto simp: approve_internal_Inr invariant_allowances)

lemma spendAllowance_invariant:
  "spendAllowance ow sp v s = Inr s' \<Longrightarrow> invariant s \<Longrightarrow> invariant s'"
  by (auto simp: spendAllowance_def Let_def require_def split: if_splits
           dest: approve_internal_invariant)

lemma transfer_internal_invariant:
  assumes "transfer_internal f t v s = Inr s'" and "invariant s"
  shows "invariant s'"
proof -
  from assms(2) have "sum_balances s = unat (totalSupply s)"
    by (simp add: invariant_def)
  with assms(1) have sb: "sum_balances s' = sum_balances s"
    by (rule transfer_internal_sum_balances)
  from assms(1) obtain b where "s' = s\<lparr>balances := b\<rparr>"
    by (auto simp: transfer_internal_Inr)
  then show ?thesis
    using assms(2) sb by (simp add: invariant_def claimed_set_def hasClaimed_def)
qed

lemma card_claimed_bound:
  assumes "\<not> hasClaimed s a"
  shows "card (claimed_set s) < 2 ^ 160"
proof -
  have "claimed_set s \<subseteq> UNIV - {a}"
    using assms by (auto simp: claimed_set_def)
  then have "card (claimed_set s) \<le> card (UNIV - {a} :: address set)"
    by (intro card_mono) simp_all
  also have "\<dots> = 2 ^ 160 - 1"
    by (simp add: card_Diff_singleton card_word)
  finally show ?thesis by simp
qed

lemma claim_effect:
  assumes "claim a s = Inr s'" and "sum_balances s = unat (totalSupply s)"
  shows "unat (balances s' a) = unat (balances s a) + unat (rewardAmount s) \<and>
         unat (totalSupply s') = unat (totalSupply s) + unat (rewardAmount s) \<and>
         sum_balances s' = unat (totalSupply s') \<and>
         claimants s' = (claimants s)(a := CLAIM_STATUS_CLAIMED) \<and>
         rewardAmount s' = rewardAmount s \<and> allowances s' = allowances s \<and>
         (\<forall>b. b \<noteq> a \<longrightarrow> balances s' b = balances s b)"
proof -
  from assms(1) obtain s1 where m: "mint a (rewardAmount s) s = Inr s1"
    and s': "s' = s1\<lparr>claimants := (claimants s1)(a := CLAIM_STATUS_CLAIMED)\<rparr>"
    by (auto simp: claim_Inr)
  from mint_sum_balances [OF m assms(2)]
  have "sum_balances s1 = unat (totalSupply s1)"
    and "unat (totalSupply s1) = unat (totalSupply s) + unat (rewardAmount s)"
    and "unat (balances s1 a) = unat (balances s a) + unat (rewardAmount s)"
    by simp_all
  moreover have "claimants s1 = claimants s" and "rewardAmount s1 = rewardAmount s"
    and "allowances s1 = allowances s" and "\<forall>b. b \<noteq> a \<longrightarrow> balances s1 b = balances s b"
    using m by (auto simp: mint_Inr)
  ultimately show ?thesis by (simp add: s' sum_balances_def)
qed

lemma claim_invariant:
  assumes "claim a s = Inr s'" and "invariant s"
  shows "invariant s'"
proof -
  from assms(1) have nc: "\<not> hasClaimed s a" by (auto simp: claim_Inr)
  from assms(2) have ra: "rewardAmount s = 1000 * 10 ^ 18"
    and ts: "unat (totalSupply s) = 10 ^ 24 + 10 ^ 21 * card (claimed_set s)"
    and sb: "sum_balances s = unat (totalSupply s)"
    and st: "\<forall>a. claimants s a = CLAIM_STATUS_PENDING \<or> claimants s a = CLAIM_STATUS_CLAIMED"
    by (simp_all add: invariant_def)
  from claim_effect [OF assms(1) sb]
  have ts': "unat (totalSupply s') = unat (totalSupply s) + unat (rewardAmount s)"
    and sb': "sum_balances s' = unat (totalSupply s')"
    and c': "claimants s' = (claimants s)(a := CLAIM_STATUS_CLAIMED)"
    and r': "rewardAmount s' = rewardAmount s"
    by simp_all
  have "claimed_set s' = insert a (claimed_set s)"
    by (auto simp: claimed_set_def hasClaimed_def c')
  moreover have "a \<notin> claimed_set s" using nc by (simp add: claimed_set_def)
  ultimately have card: "card (claimed_set s') = Suc (card (claimed_set s))"
    by simp
  have "unat (totalSupply s') = 10 ^ 24 + 10 ^ 21 * card (claimed_set s')"
    using ts' ts ra card by simp
  moreover have "\<forall>x. claimants s' x = CLAIM_STATUS_PENDING \<or> claimants s' x = CLAIM_STATUS_CLAIMED"
    using st c' by simp
  ultimately show ?thesis using sb' r' ra by (simp add: invariant_def)
qed

lemma constructor_invariant:
  assumes "constructor d = Inr s"
  shows "invariant s"
proof -
  from assms have s: "s = \<lparr>name = ''AtaToken'', symbol = ''ATA'',
          balances = (\<lambda>_. 0)(d := 1000000 * 10 ^ 18), allowances = (\<lambda>_ _. 0),
          totalSupply = 1000000 * 10 ^ 18, claimants = (\<lambda>_. 0),
          rewardAmount = 1000 * 10 ^ 18\<rparr>"
    by (simp add: constructor_Inr)
  have "claimed_set s = {}"
    by (simp add: s claimed_set_def hasClaimed_def CLAIM_STATUS_CLAIMED_def)
  moreover have "sum_balances s = unat (totalSupply s)"
    unfolding s by (simp only: sum_balances_single AtaToken.simps)
  ultimately show ?thesis
    by (simp add: invariant_def) (simp add: s CLAIM_STATUS_PENDING_def)
qed

lemma execute_invariant:
  assumes "execute sender c s = Inr (s', r)" and "invariant s"
  shows "invariant s'"
  using assms
  by (cases c)
     (auto simp: returning_def transfer_def approve_def transferFrom_def
           increaseAllowance_def decreaseAllowance_def Let_def require_def checked_add_def
           split: sum.splits if_splits
           dest: claim_invariant transfer_internal_invariant approve_internal_invariant
                 spendAllowance_invariant)

lemma reachable_invariant: "reachable s \<Longrightarrow> invariant s"
  by (induction rule: reachable.induct)
     (auto intro: constructor_invariant execute_invariant)

lemma reachable_transact: "reachable s \<Longrightarrow> reachable (transact tx s)"
  by (cases "execute (fst tx) (snd tx) s")
     (auto simp: transact_def intro: reachable.step)

lemma reachable_run: "reachable s \<Longrightarrow> reachable (run txs s)"
  by (induction txs arbitrary: s) (simp_all add: reachable_transact)

subsection \<open>Claiming\<close>

lemma claim_pending:
  assumes "reachable s" and "a \<noteq> 0" and "claimants s a = CLAIM_STATUS_PENDING"
  shows "\<exists>s'. claim a s = Inr s'"
proof -
  have inv: "invariant s" using assms(1) by (rule reachable_invariant)
  then have ra: "rewardAmount s = 1000 * 10 ^ 18"
    and ts: "unat (totalSupply s) = 10 ^ 24 + 10 ^ 21 * card (claimed_set s)"
    by (simp_all add: invariant_def)
  have nc: "\<not> hasClaimed s a"
    using assms(3) by (simp add: hasClaimed_def CLAIM_STATUS_PENDING_def CLAIM_STATUS_CLAIMED_def)
  then have "card (claimed_set s) < 2 ^ 160" by (rule card_claimed_bound)
  then have "10 ^ 21 * card (claimed_set s) < 10 ^ 21 * 2 ^ 160" by simp
  then have "unat (totalSupply s) + unat (rewardAmount s) < 2 ^ 256"
    using ts ra by simp
  then obtain s1 where "mint a (rewardAmount s) s = Inr s1"
    using assms(2) by (simp add: mint_Inr)
  then show ?thesis using nc by (simp add: claim_Inr)
qed

lemma claim_reachable:
  assumes "reachable s" and "claim a s = Inr s'"
  shows "unat (balances s' a) = unat (balances s a) + unat (rewardAmount s) \<and>
         unat (totalSupply s') = unat (totalSupply s) + unat (rewardAmount s) \<and>
         claimants s' a = CLAIM_STATUS_CLAIMED \<and> claimants s a \<noteq> CLAIM_STATUS_CLAIMED"
proof -
  have "sum_balances s = unat (totalSupply s)"
    using reachable_invariant [OF assms(1)] by (simp add: invariant_def)
  from claim_effect [OF assms(2) this] assms(2) show ?thesis
    by (simp add: claim_Inr hasClaimed_def)
qed

lemma execute_claimants:
  "execute sender c s = Inr (s', r) \<Longrightarrow>
     claimants s' = (if c = Claim then (claimants s)(sender := CLAIM_STATUS_CLAIMED) else claimants s)"
  by (cases c)
     (auto simp: returning_def claim_Inr mint_Inr transfer_def approve_def transferFrom_def
           increaseAllowance_def decreaseAllowance_def Let_def require_def checked_add_def
           spendAllowance_def transfer_internal_Inr approve_internal_Inr
           split: sum.splits if_splits)

lemma execute_rewardAmount:
  "execute sender c s = Inr (s', r) \<Longrightarrow> rewardAmount s' = rewardAmount s"
  by (cases c)
     (auto simp: returning_def claim_Inr mint_Inr transfer_def approve_def transferFrom_def
           increaseAllowance_def decreaseAllowance_def Let_def require_def checked_add_def
           spendAllowance_def transfer_internal_Inr approve_internal_Inr
           split: sum.splits if_splits)

lemma transact_rewardAmount: "rewardAmount (transact tx s) = rewardAmount s"
  by (cases "execute (fst tx) (snd tx) s")
     (auto simp: transact_def dest: execute_rewardAmount)

lemma run_rewardAmount: "rewardAmount (run txs s) = rewardAmount s"
  by (induction txs arbitrary: s) (simp_all add: transact_rewardAmount)

lemma transact_claimants:
  "claimants (transact tx s) a = claimants s a \<or>
   (claimants (transact tx s) a = CLAIM_STATUS_CLAIMED \<and> tx = (a, Claim) \<and> succeeds tx s)"
proof (cases "execute (fst tx) (snd tx) s")
  case (Inl e)
  then show ?thesis by (simp add: transact_def)
next
  case (Inr p)
  obtain s' r where p: "p = (s', r)" by (cases p)
  from execute_claimants [OF Inr [unfolded p]] Inr p show ?thesis
    by (cases tx) (auto simp: transact_def succeeds_def)
qed

lemma transact_claimed:
  "claimants s a = CLAIM_STATUS_CLAIMED \<Longrightarrow> claimants (transact tx s) a = CLAIM_STATUS_CLAIMED"
  using transact_claimants [of tx s a] by auto

lemma run_claimed:
  "claimants s a = CLAIM_STATUS_CLAIMED \<Longrightarrow> claimants (run txs s) a = CLAIM_STATUS_CLAIMED"
  by (induction txs arbitrary: s) (simp_all add: transact_claimed)

lemma transitions_from_claimed:
  "claimants s a = CLAIM_STATUS_CLAIMED \<Longrightarrow> y \<noteq> CLAIM_STATUS_CLAIMED \<or> x \<noteq> CLAIM_STATUS_CLAIMED
     \<Longrightarrow> transitions a x y txs s = 0"
  by (induction txs arbitrary: s) (auto simp: transact_claimed)

lemma transitions_to_claimed:
  "transitions a CLAIM_STATUS_PENDING CLAIM_STATUS_CLAIMED txs s \<le> 1"
proof (induction txs arbitrary: s)
  case Nil
  then show ?case by simp
next
  case (Cons tx txs)
  show ?case
  proof (cases "claimants (transact tx s) a = CLAIM_STATUS_CLAIMED")
    case True
    then have "transitions a CLAIM_STATUS_PENDING CLAIM_STATUS_CLAIMED txs (transact tx s) = 0"
      by (rule transitions_from_claimed) (simp add: CLAIM_STATUS_PENDING_def CLAIM_STATUS_CLAIMED_def)
    then show ?thesis by simp
  next
    case False
    then show ?thesis using Cons.IH [of "transact tx s"] by simp
  qed
qed

lemma transitions_to_pending:
  "transitions a CLAIM_STATUS_CLAIMED CLAIM_STATUS_PENDING txs s = 0"
proof (induction txs arbitrary: s)
  case Nil
  then show ?case by simp
next
  case (Cons tx txs)
  then show ?case using transact_claimed [of s a tx]
    by (auto simp: CLAIM_STATUS_PENDING_def CLAIM_STATUS_CLAIMED_def)
qed

lemma hasClaimed_run:
  "hasClaimed (run txs s) a \<longleftrightarrow> hasClaimed s a \<or> claimed_by a txs s"
proof (induction txs arbitrary: s)
  case Nil
  then show ?case by simp
next
  case (Cons tx txs)
  have "hasClaimed (transact tx s) a \<longleftrightarrow> hasClaimed s a \<or> (tx = (a, Claim) \<and> succeeds tx s)"
  proof (cases "tx = (a, Claim) \<and> succeeds tx s")
    case True
    then obtain s' where c: "claim a s = Inr s'"
      by (auto simp: succeeds_def returning_def split: sum.splits)
    have "transact tx s = s'"
      using True by (simp add: transact_def returning_def c)
    moreover have "claimants s' a = CLAIM_STATUS_CLAIMED"
      using c by (auto simp: claim_Inr)
    ultimately show ?thesis using True by (auto simp: hasClaimed_def)
  next
    case False
    then show ?thesis using transact_claimants [of tx s a]
      by (auto simp: hasClaimed_def)
  qed
  then show ?case using Cons.IH [of "transact tx s"] by auto
qed

subsection \<open>The two concrete states\<close>

lemma constructor_genesis: "constructor 1 = Inr genesis"
  by (simp add: constructor_Inr genesis_def)

lemma reachable_genesis: "reachable genesis"
  using constructor_genesis by (rule reachable.deployed)

lemma claim_genesis: "claim 2 genesis = Inr claimed2"
  by (simp add: claim_def require_def hasClaimed_def mint_def checked_add_def genesis_def
        claimed2_def CLAIM_STATUS_CLAIMED_def fun_upd_twist)

lemma reachable_claimed2: "reachable claimed2"
proof -
  have "execute 2 Claim genesis = Inr (claimed2, RUnit)"
    by (simp add: returning_def claim_genesis)
  with reachable_genesis show ?thesis by (rule reachable.step)
qed


section \<open>The claims about the contract\<close>

text \<open>
  C1. For every account, \<open>claim\<close> fails with the reason \<open>Already claimed\<close> when the
  account's status is CLAIMED; when the status is PENDING it succeeds, the account's
  balance grows by the reward amount and its status becomes CLAIMED. The failure needs
  nothing of the state. The success is stated for the states the contract can be in and
  for a sender other than the zero address, which no transaction has as its sender.
\<close>

theorem claim_guard:
  "(claimants s a = CLAIM_STATUS_CLAIMED \<longrightarrow> claim a s = Inl (Revert ''Already claimed'')) \<and>
   (reachable s \<and> a \<noteq> 0 \<and> claimants s a = CLAIM_STATUS_PENDING \<longrightarrow>
      (\<exists>s'. claim a s = Inr s' \<and>
            unat (balances s' a) = unat (balances s a) + unat (rewardAmount s) \<and>
            claimants s' a = CLAIM_STATUS_CLAIMED))"
proof (intro conjI impI)
  assume "claimants s a = CLAIM_STATUS_CLAIMED"
  then show "claim a s = Inl (Revert ''Already claimed'')" by (rule claim_claimed)
next
  assume h: "reachable s \<and> a \<noteq> 0 \<and> claimants s a = CLAIM_STATUS_PENDING"
  then obtain s' where c: "claim a s = Inr s'"
    using claim_pending [of s a] by blast
  with h claim_reachable [of s a s'] show "\<exists>s'. claim a s = Inr s' \<and>
            unat (balances s' a) = unat (balances s a) + unat (rewardAmount s) \<and>
            claimants s' a = CLAIM_STATUS_CLAIMED"
    by blast
qed

theorem claim_guard_witness:
  "claimants claimed2 2 = CLAIM_STATUS_CLAIMED \<and>
   claim 2 claimed2 = Inl (Revert ''Already claimed'') \<and>
   reachable genesis \<and> (2 :: address) \<noteq> 0 \<and> claimants genesis 2 = CLAIM_STATUS_PENDING \<and>
   (\<exists>s'. claim 2 genesis = Inr s' \<and>
         unat (balances s' 2) = unat (balances genesis 2) + unat (rewardAmount genesis) \<and>
         claimants s' 2 = CLAIM_STATUS_CLAIMED)"
proof -
  have h1: "claimants claimed2 2 = CLAIM_STATUS_CLAIMED"
    by (simp add: claimed2_def CLAIM_STATUS_CLAIMED_def)
  have h2: "claimants genesis 2 = CLAIM_STATUS_PENDING"
    by (simp add: genesis_def CLAIM_STATUS_PENDING_def)
  have h3: "(2 :: address) \<noteq> 0" by simp
  from h1 h2 h3 reachable_genesis claim_guard [of claimed2 2] claim_guard [of genesis 2]
  show ?thesis by blast
qed

text \<open>
  C2. For every account whose status is PENDING, two calls of \<open>claim\<close> in a row: the
  first succeeds, the second fails with the reason \<open>Already claimed\<close>.
\<close>

theorem claim_twice:
  assumes "reachable s" and "a \<noteq> 0" and "claimants s a = CLAIM_STATUS_PENDING"
  shows "\<exists>s1. claim a s = Inr s1 \<and> claim a s1 = Inl (Revert ''Already claimed'')"
proof -
  from claim_pending [OF assms] obtain s1 where c: "claim a s = Inr s1" ..
  with assms(1) have "claimants s1 a = CLAIM_STATUS_CLAIMED"
    using claim_reachable [of s a s1] by simp
  then have "claim a s1 = Inl (Revert ''Already claimed'')" by (rule claim_claimed)
  with c show ?thesis by blast
qed

theorem claim_twice_witness:
  "reachable genesis \<and> (2 :: address) \<noteq> 0 \<and> claimants genesis 2 = CLAIM_STATUS_PENDING \<and>
   (\<exists>s1. claim 2 genesis = Inr s1 \<and> claim 2 s1 = Inl (Revert ''Already claimed''))"
proof -
  have h: "claimants genesis 2 = CLAIM_STATUS_PENDING"
    by (simp add: genesis_def CLAIM_STATUS_PENDING_def)
  have nz: "(2 :: address) \<noteq> 0" by simp
  from claim_twice [OF reachable_genesis nz h] reachable_genesis nz h show ?thesis by blast
qed

text \<open>
  C3. Along any sequence of transactions, from any state: an account whose status is
  CLAIMED keeps it, its status never passes from CLAIMED to PENDING, and it passes from
  PENDING to CLAIMED at most once.
\<close>

theorem status_monotonic:
  "(claimants s a = CLAIM_STATUS_CLAIMED \<longrightarrow> claimants (run txs s) a = CLAIM_STATUS_CLAIMED) \<and>
   transitions a CLAIM_STATUS_CLAIMED CLAIM_STATUS_PENDING txs s = 0 \<and>
   transitions a CLAIM_STATUS_PENDING CLAIM_STATUS_CLAIMED txs s \<le> 1"
  using run_claimed [of s a txs] transitions_to_pending [of a txs s]
    transitions_to_claimed [of a txs s] by blast

theorem status_monotonic_witness:
  "claimants claimed2 2 = CLAIM_STATUS_CLAIMED \<and>
   claimants (run [(2, Claim), (2, HasClaimed 2), (1, Transfer 2 5)] claimed2) 2
     = CLAIM_STATUS_CLAIMED \<and>
   transitions 2 CLAIM_STATUS_PENDING CLAIM_STATUS_CLAIMED [(2, Claim), (2, Claim)] genesis = 1"
proof -
  have h: "claimants claimed2 2 = CLAIM_STATUS_CLAIMED"
    by (simp add: claimed2_def CLAIM_STATUS_CLAIMED_def)
  have t: "transact (2, Claim) genesis = claimed2"
    by (simp add: transact_def returning_def claim_genesis)
  have "transitions 2 CLAIM_STATUS_PENDING CLAIM_STATUS_CLAIMED [(2, Claim), (2, Claim)] genesis \<ge> 1"
    by (simp add: t h) (simp add: genesis_def CLAIM_STATUS_PENDING_def)
  with h status_monotonic [of claimed2 2 "[(2, Claim), (2, HasClaimed 2), (1, Transfer 2 5)]"]
    status_monotonic [of genesis 2 "[(2, Claim), (2, Claim)]"]
  show ?thesis by simp
qed

text \<open>
  C4. \<open>claim\<close> is all or nothing. When the call fails, the transaction leaves the whole
  storage as it was. When it succeeds, the new storage has the reward added to the
  sender's balance and to the total supply and the sender's status moved from not
  CLAIMED to CLAIMED, all in the one state the transaction produces.
\<close>

theorem claim_atomic:
  "(claim a s = Inl e \<longrightarrow> transact (a, Claim) s = s) \<and>
   (reachable s \<and> claim a s = Inr s' \<longrightarrow>
      transact (a, Claim) s = s' \<and>
      unat (balances s' a) = unat (balances s a) + unat (rewardAmount s) \<and>
      unat (totalSupply s') = unat (totalSupply s) + unat (rewardAmount s) \<and>
      claimants s a \<noteq> CLAIM_STATUS_CLAIMED \<and> claimants s' a = CLAIM_STATUS_CLAIMED)"
proof (intro conjI impI)
  assume "claim a s = Inl e"
  then show "transact (a, Claim) s = s" by (simp add: transact_def returning_def)
next
  assume h: "reachable s \<and> claim a s = Inr s'"
  then show "transact (a, Claim) s = s'" by (simp add: transact_def returning_def)
  from h claim_reachable [of s a s']
  show "unat (balances s' a) = unat (balances s a) + unat (rewardAmount s)"
    and "unat (totalSupply s') = unat (totalSupply s) + unat (rewardAmount s)"
    and "claimants s a \<noteq> CLAIM_STATUS_CLAIMED" and "claimants s' a = CLAIM_STATUS_CLAIMED"
    by simp_all
qed

theorem claim_atomic_witness:
  "claim 2 claimed2 = Inl (Revert ''Already claimed'') \<and>
   transact (2, Claim) claimed2 = claimed2 \<and>
   reachable genesis \<and> claim 2 genesis = Inr claimed2 \<and>
   transact (2, Claim) genesis = claimed2 \<and>
   unat (balances claimed2 2) = unat (balances genesis 2) + unat (rewardAmount genesis) \<and>
   unat (totalSupply claimed2) = unat (totalSupply genesis) + unat (rewardAmount genesis) \<and>
   claimants genesis 2 \<noteq> CLAIM_STATUS_CLAIMED \<and> claimants claimed2 2 = CLAIM_STATUS_CLAIMED"
proof -
  have f: "claim 2 claimed2 = Inl (Revert ''Already claimed'')"
    by (simp add: claim_def require_def hasClaimed_def claimed2_def CLAIM_STATUS_CLAIMED_def)
  from f claim_genesis reachable_genesis
    claim_atomic [where a = 2 and s = claimed2 and e = "Revert ''Already claimed''"]
    claim_atomic [where a = 2 and s = genesis and s' = claimed2]
  show ?thesis by blast
qed

text \<open>
  C6. Starting from deployment, after any sequence of transactions, \<open>hasClaimed\<close> of an
  account is true exactly when one of the transactions was a \<open>claim\<close> sent by that
  account that went through: false as long as there was none, true ever after.
\<close>

theorem hasClaimed_tracks_claim:
  assumes "constructor d = Inr s0"
  shows "hasClaimed (run txs s0) a = claimed_by a txs s0"
proof -
  from assms have "\<not> hasClaimed s0 a"
    by (auto simp: constructor_Inr hasClaimed_def CLAIM_STATUS_CLAIMED_def)
  then show ?thesis by (simp add: hasClaimed_run)
qed

theorem hasClaimed_tracks_claim_witness:
  "constructor 1 = Inr genesis \<and>
   hasClaimed (run [(1, Transfer 2 5)] genesis) 2 = claimed_by 2 [(1, Transfer 2 5)] genesis \<and>
   \<not> claimed_by 2 [(1, Transfer 2 5)] genesis \<and>
   hasClaimed (run [(1, Transfer 2 5), (2, Claim)] genesis) 2
     = claimed_by 2 [(1, Transfer 2 5), (2, Claim)] genesis \<and>
   claimed_by 2 [(2, Claim)] genesis"
proof -
  have "claimed_by 2 [(2, Claim)] genesis"
    by (simp add: succeeds_def returning_def claim_genesis)
  moreover have "\<not> claimed_by 2 [(1, Transfer 2 5)] genesis" by simp
  ultimately show ?thesis
    using constructor_genesis
      hasClaimed_tracks_claim [OF constructor_genesis, of "[(1, Transfer 2 5)]" 2]
      hasClaimed_tracks_claim [OF constructor_genesis, of "[(1, Transfer 2 5), (2, Claim)]" 2]
    by blast
qed

text \<open>
  C8. \<open>hasClaimed\<close> is a pure read: whoever calls it, in whatever state, the call
  returns whether the account's status is CLAIMED and the storage after the call
  (statuses, balances, allowances, total supply, reward amount) is the storage before it.
\<close>

theorem hasClaimed_pure:
  "execute sender (HasClaimed a) s = Inr (s, RBool (claimants s a = CLAIM_STATUS_CLAIMED)) \<and>
   transact (sender, HasClaimed a) s = s"
  by (simp add: transact_def hasClaimed_def)

text \<open>
  C9. Deployment by a non-zero account succeeds, sets the reward amount to 1000 times 10
  to the power \<open>decimals\<close> and mints 1000000 times 10 to the power \<open>decimals\<close> to the
  deployer. No transaction changes the reward amount, so it has that value in every
  reachable state, and every \<open>claim\<close> that goes through there adds exactly that amount to
  the sender's balance and to the total supply, without wrapping.
\<close>

theorem reward_amount_fixed:
  "(d \<noteq> 0 \<longrightarrow>
      (\<exists>s0. constructor d = Inr s0 \<and>
            unat (rewardAmount s0) = 1000 * 10 ^ unat decimals \<and>
            unat (balances s0 d) = 1000000 * 10 ^ unat decimals \<and>
            unat (totalSupply s0) = 1000000 * 10 ^ unat decimals)) \<and>
   rewardAmount (transact tx s) = rewardAmount s \<and>
   (reachable s \<longrightarrow> unat (rewardAmount s) = 1000 * 10 ^ unat decimals) \<and>
   (reachable s \<and> claim a s = Inr s' \<longrightarrow>
      unat (balances s' a) = unat (balances s a) + 1000 * 10 ^ unat decimals \<and>
      unat (totalSupply s') = unat (totalSupply s) + 1000 * 10 ^ unat decimals)"
proof -
  have r: "unat (rewardAmount s) = 1000 * 10 ^ unat decimals" if "reachable s" for s
    using reachable_invariant [OF that] by (simp add: invariant_def decimals_def)
  have "\<exists>s0. constructor d = Inr s0 \<and>
            unat (rewardAmount s0) = 1000 * 10 ^ unat decimals \<and>
            unat (balances s0 d) = 1000000 * 10 ^ unat decimals \<and>
            unat (totalSupply s0) = 1000000 * 10 ^ unat decimals" if "d \<noteq> 0"
    using that by (simp add: constructor_Inr decimals_def)
  moreover have "unat (balances s' a) = unat (balances s a) + 1000 * 10 ^ unat decimals \<and>
      unat (totalSupply s') = unat (totalSupply s) + 1000 * 10 ^ unat decimals"
    if "reachable s \<and> claim a s = Inr s'"
    using that claim_reachable [of s a s'] r [of s] by simp
  ultimately show ?thesis using r [of s] transact_rewardAmount [of tx s] by blast
qed

theorem reward_amount_fixed_witness:
  "(1 :: address) \<noteq> 0 \<and> constructor 1 = Inr genesis \<and>
   unat (rewardAmount genesis) = 1000000000000000000000 \<and>
   unat (balances genesis 1) = 1000000000000000000000000 \<and>
   reachable genesis \<and> claim 2 genesis = Inr claimed2 \<and>
   unat (balances claimed2 2) = unat (balances genesis 2) + 1000 * 10 ^ unat decimals \<and>
   unat (totalSupply claimed2) = unat (totalSupply genesis) + 1000 * 10 ^ unat decimals \<and>
   rewardAmount (transact (2, Claim) genesis) = rewardAmount genesis"
proof -
  have "unat (rewardAmount genesis) = 1000000000000000000000"
    and "unat (balances genesis 1) = 1000000000000000000000000"
    by (simp_all add: genesis_def)
  then show ?thesis
    using reward_amount_fixed [where d = 1 and tx = "(2, Claim)" and s = genesis and a = 2
        and s' = claimed2]
      constructor_genesis reachable_genesis claim_genesis
    by simp
qed


section \<open>The claims about the client\<close>

text \<open>
  C5. For every owner, spender and requested amount: \<open>handleStake\<close> first fetches the
  current allowance and compares it with the amount. The function as printed submits an
  approval only when the allowance is below the amount, then exactly one, for that
  spender and exactly that amount. Whatever follows the \<open>if\<close> runs only when no approval
  was needed or the one approval has been submitted and confirmed, and it runs after it;
  otherwise the function ends there with the error. With the stake transaction in that
  place: there is still at most that one approval; whenever the stake gets submitted,
  what precedes it is the allowance query followed, if and only if the allowance was
  below the amount, by the approval submitted and confirmed; and when the wallet and the
  chain accept everything the stake is submitted.
\<close>

theorem handleStake_approval:
  assumes "parseEther u stake = Inr amount"
    and "allowance_reply sg account spender = Inr current"
  shows "take 2 (fst (handleStake u sg account spender stake rest))
           = [Query (AllowanceCall account spender), Reply (AllowanceCall account spender)] \<and>
         approvals (fst (handleStake u sg account spender stake nothing_more))
           = (if current < amount \<and> approve_reply sg spender amount = Inr ()
              then [ApproveTx spender amount] else []) \<and>
         ((current < amount \<longrightarrow>
             approve_reply sg spender amount = Inr () \<and> approve_wait sg spender amount = Inr ()) \<longrightarrow>
            handleStake u sg account spender stake rest
              = ([Query (AllowanceCall account spender), Reply (AllowanceCall account spender)]
                 @ (if current < amount
                    then [Submitted (ApproveTx spender amount), Confirmed (ApproveTx spender amount)]
                    else [])
                 @ fst (rest amount),
                 snd (rest amount))) \<and>
         (\<not> (current < amount \<longrightarrow>
             approve_reply sg spender amount = Inr () \<and> approve_wait sg spender amount = Inr ()) \<longrightarrow>
            handleStake u sg account spender stake rest
              = handleStake u sg account spender stake nothing_more \<and>
            (\<exists>e. snd (handleStake u sg account spender stake rest) = Inl e)) \<and>
         approvals (fst (handleStake u sg account spender stake (stake_step sg)))
           = (if current < amount \<and> approve_reply sg spender amount = Inr ()
              then [ApproveTx spender amount] else []) \<and>
         (list_ex is_stake_submission
            (fst (handleStake u sg account spender stake (stake_step sg))) \<longrightarrow>
            before_stake (fst (handleStake u sg account spender stake (stake_step sg)))
              = [Query (AllowanceCall account spender), Reply (AllowanceCall account spender)]
                @ (if current < amount
                   then [Submitted (ApproveTx spender amount), Confirmed (ApproveTx spender amount)]
                   else [])) \<and>
         (approve_reply sg spender amount = Inr () \<and> approve_wait sg spender amount = Inr () \<and>
          stake_reply sg amount = Inr () \<longrightarrow>
            list_ex is_stake_submission
              (fst (handleStake u sg account spender stake (stake_step sg))))"
proof (intro conjI)
  show "take 2 (fst (handleStake u sg account spender stake rest))
           = [Query (AllowanceCall account spender), Reply (AllowanceCall account spender)]"
    using assms
    by (auto simp: handleStake_def approve_step_def split: sum.splits prod.splits)
  show "approvals (fst (handleStake u sg account spender stake nothing_more))
           = (if current < amount \<and> approve_reply sg spender amount = Inr ()
              then [ApproveTx spender amount] else [])"
    using assms
    by (auto simp: handleStake_def approve_step_def nothing_more_def split: sum.splits)
  show "(current < amount \<longrightarrow>
             approve_reply sg spender amount = Inr () \<and> approve_wait sg spender amount = Inr ()) \<longrightarrow>
            handleStake u sg account spender stake rest
              = ([Query (AllowanceCall account spender), Reply (AllowanceCall account spender)]
                 @ (if current < amount
                    then [Submitted (ApproveTx spender amount), Confirmed (ApproveTx spender amount)]
                    else [])
                 @ fst (rest amount),
                 snd (rest amount))"
    using assms
    by (auto simp: handleStake_def approve_step_def split: sum.splits prod.splits)
  show "\<not> (current < amount \<longrightarrow>
             approve_reply sg spender amount = Inr () \<and> approve_wait sg spender amount = Inr ()) \<longrightarrow>
            handleStake u sg account spender stake rest
              = handleStake u sg account spender stake nothing_more \<and>
            (\<exists>e. snd (handleStake u sg account spender stake rest) = Inl e)"
    using assms
    by (auto simp: handleStake_def approve_step_def nothing_more_def split: sum.splits)
  show "approvals (fst (handleStake u sg account spender stake (stake_step sg)))
           = (if current < amount \<and> approve_reply sg spender amount = Inr ()
              then [ApproveTx spender amount] else [])"
    using assms
    by (auto simp: handleStake_def approve_step_def stake_step_def split: sum.splits)
  show "list_ex is_stake_submission
            (fst (handleStake u sg account spender stake (stake_step sg))) \<longrightarrow>
            before_stake (fst (handleStake u sg account spender stake (stake_step sg)))
              = [Query (AllowanceCall account spender), Reply (AllowanceCall account spender)]
                @ (if current < amount
                   then [Submitted (ApproveTx spender amount), Confirmed (ApproveTx spender amount)]
                   else [])"
    using assms
    by (auto simp: handleStake_def approve_step_def stake_step_def before_stake_def
             split: sum.splits)
  show "approve_reply sg spender amount = Inr () \<and> approve_wait sg spender amount = Inr () \<and>
          stake_reply sg amount = Inr () \<longrightarrow>
            list_ex is_stake_submission
              (fst (handleStake u sg account spender stake (stake_step sg)))"
    using assms
    by (auto simp: handleStake_def approve_step_def stake_step_def split: sum.splits)
qed

theorem handleStake_approval_witness:
  "parseEther demo_utils ''5.0'' = Inr 5000000000000000000 \<and>
   allowance_reply (demo_signer 7) ''0xA'' ''0xB'' = Inr 7 \<and>
   fst (handleStake demo_utils (demo_signer 7) ''0xA'' ''0xB'' ''5.0'' nothing_more)
     = [Query (AllowanceCall ''0xA'' ''0xB''), Reply (AllowanceCall ''0xA'' ''0xB''),
        Submitted (ApproveTx ''0xB'' 5000000000000000000),
        Confirmed (ApproveTx ''0xB'' 5000000000000000000)] \<and>
   approvals (fst (handleStake demo_utils (demo_signer 7) ''0xA'' ''0xB'' ''5.0'' nothing_more))
     = [ApproveTx ''0xB'' 5000000000000000000] \<and>
   fst (handleStake demo_utils (demo_signer 7) ''0xA'' ''0xB'' ''5.0''
          (stake_step (demo_signer 7)))
     = [Query (AllowanceCall ''0xA'' ''0xB''), Reply (AllowanceCall ''0xA'' ''0xB''),
        Submitted (ApproveTx ''0xB'' 5000000000000000000),
        Confirmed (ApproveTx ''0xB'' 5000000000000000000),
        Submitted (StakeTx 5000000000000000000), Confirmed (StakeTx 5000000000000000000)] \<and>
   before_stake (fst (handleStake demo_utils (demo_signer 7) ''0xA'' ''0xB'' ''5.0''
          (stake_step (demo_signer 7))))
     = [Query (AllowanceCall ''0xA'' ''0xB''), Reply (AllowanceCall ''0xA'' ''0xB''),
        Submitted (ApproveTx ''0xB'' 5000000000000000000),
        Confirmed (ApproveTx ''0xB'' 5000000000000000000)]"
proof -
  have p: "parseEther demo_utils ''5.0'' = Inr 5000000000000000000"
    by (simp add: demo_utils_def)
  have a: "allowance_reply (demo_signer 7) ''0xA'' ''0xB'' = Inr 7"
    by (simp add: demo_signer_def)
  have r: "approve_reply (demo_signer 7) ''0xB'' 5000000000000000000 = Inr ()"
    "approve_wait (demo_signer 7) ''0xB'' 5000000000000000000 = Inr ()"
    "stake_reply (demo_signer 7) 5000000000000000000 = Inr ()"
    by (simp_all add: demo_signer_def)
  have s: "stake_step (demo_signer 7) 5000000000000000000
     = ([Submitted (StakeTx 5000000000000000000), Confirmed (StakeTx 5000000000000000000)],
        Inr ())"
    by (simp add: stake_step_def demo_signer_def)
  have n: "nothing_more 5000000000000000000 = ([], Inr () :: string + unit)"
    by (simp add: nothing_more_def)
  from handleStake_approval [OF p a, of "stake_step (demo_signer 7)"]
       handleStake_approval [OF p a, of "nothing_more"] p a r s n
  show ?thesis by simp
qed

text \<open>
  C7. \<open>getBalanceAndClaimed\<close> makes the balance call and the claim-status call for the
  account one after the other before it waits for either. When both are answered it
  returns the pair of the balance, passed through \<open>formatEther\<close>, and the claim status,
  in that order.
\<close>

theorem getBalanceAndClaimed_pair:
  "take 2 (fst (getBalanceAndClaimed u account prov))
     = [Query (BalanceOfCall account), Query (HasClaimedCall account)] \<and>
   (balanceOf_reply prov account = Inr b \<and> hasClaimed_reply prov account = Inr c \<longrightarrow>
      getBalanceAndClaimed u account prov
        = ([Query (BalanceOfCall account), Query (HasClaimedCall account),
            Reply (BalanceOfCall account), Reply (HasClaimedCall account)],
           Inr (formatEther u b, c)))"
  by (auto simp: getBalanceAndClaimed_def promise_all_def Let_def split: sum.splits)

theorem getBalanceAndClaimed_pair_witness:
  "balanceOf_reply demo_provider ''0xA'' = Inr 1000000000000000000 \<and>
   hasClaimed_reply demo_provider ''0xA'' = Inr True \<and>
   snd (getBalanceAndClaimed demo_utils ''0xA'' demo_provider) = Inr (''1.0'', True)"
proof -
  have b: "balanceOf_reply demo_provider ''0xA'' = Inr 1000000000000000000"
    and c: "hasClaimed_reply demo_provider ''0xA'' = Inr True"
    by (simp_all add: demo_provider_def)
  have "formatEther demo_utils 1000000000000000000 = ''1.0''"
    by (simp add: demo_utils_def)
  with b c getBalanceAndClaimed_pair [of demo_utils "''0xA''" demo_provider
      1000000000000000000 True]
  show ?thesis by simp
qed

text \<open>
  C10. \<open>getWeb3Provider\<close> returns \<open>null\<close>, and throws nothing, when
  \<open>window.ethereum\<close> is absent; whenever it returns, the value is \<open>null\<close> or the
  \<open>Web3Provider\<close> built from \<open>window.ethereum\<close>.
\<close>

theorem getWeb3Provider_null:
  "(ethereum w = Undefined \<longrightarrow> getWeb3Provider mk w = Inr None) \<and>
   (getWeb3Provider mk w = Inr v \<longrightarrow>
      v = None \<or> (\<exists>p. mk (ethereum w) = Inr p \<and> v = Some p))"
  by (auto simp: getWeb3Provider_def split: sum.splits if_splits)

theorem getWeb3Provider_null_witness:
  "ethereum \<lparr>ethereum = (Undefined :: nat js_value)\<rparr> = Undefined \<and>
   getWeb3Provider (\<lambda>v. Inr v :: string + nat js_value) \<lparr>ethereum = Undefined\<rparr> = Inr None \<and>
   getWeb3Provider (\<lambda>v. Inr v :: string + nat js_value) \<lparr>ethereum = Object 3\<rparr>
     = Inr (Some (Object 3))"
proof -
  have "getWeb3Provider (\<lambda>v. Inr v :: string + nat js_value) \<lparr>ethereum = Object 3\<rparr>
     = Inr (Some (Object 3))"
    by (simp add: getWeb3Provider_def)
  with getWeb3Provider_null [of "\<lparr>ethereum = (Undefined :: nat js_value)\<rparr>"
      "\<lambda>v. Inr v :: string + nat js_value"]
  show ?thesis by simp
qed

end
